theory Spec2Isabelle
  imports Complex_Main
begin

section \<open>Documents, errors and the world the handlers act on\<close>

text \<open>
  The repository holds two versions of one Express server: \<^verbatim>\<open>src/server.js\<close>
  (one broadcast timer set at start-up; suffix \<open>_A\<close> below) and
  \<^verbatim>\<open>src/unnamed/part_000\<close> (one timer per successful subscription, plus the
  unsubscribe and check-access routes; suffix \<open>_B\<close>). Both share the schema, the
  transport and the site-status route.

  The schema of both files declares the two paths \<^verbatim>\<open>email\<close> and
  \<^verbatim>\<open>isComingSoon\<close> and sets no option, so it is strict: a document of the model
  has these two paths and no other.
\<close>

record subscriber =
  email :: string
  isComingSoon :: bool

text \<open>
  part_000 reads \<^verbatim>\<open>subscriber.followUpEmailSent\<close>, a path its schema does not
  declare: on every document of the model that property is \<^verbatim>\<open>undefined\<close>
  (\<open>None\<close>), and \<^verbatim>\<open>!undefined\<close> is true.
\<close>

definition followUpEmailSent :: "subscriber \<Rightarrow> bool option" where
  "followUpEmailSent d = None"

fun js_not :: "bool option \<Rightarrow> bool" where
  "js_not None = True"
| "js_not (Some b) = (\<not> b)"

datatype error =
    DuplicateKey
  | StoreUnavailable
  | MailError
  | ReferenceError string

text \<open>\<^verbatim>\<open>error.code\<close>: only the store's duplicate-key error carries the number 11000.\<close>

fun error_code :: "error \<Rightarrow> nat option" where
  "error_code DuplicateKey = Some 11000"
| "error_code StoreUnavailable = None"
| "error_code MailError = None"
| "error_code (ReferenceError name) = None"

text \<open>The lines written to the console. server.js logs the transport's response after
  a confirmation mail, part_000 the recipient.\<close>

datatype log_line =
    WaitingBeforeSending
  | ConfirmationResponse
  | ConfirmationSent string
  | SubscriptionError error
  | FollowUpSent string
  | AllFollowUpsSent
  | TimeLimitExceeded
  | FollowUpError error
  | SiteStatusError error
  | UnsubscribeError error
  | CheckAccessError error

text \<open>
  A pending \<^verbatim>\<open>setTimeout\<close>: the instant it was set, its delay, and the argument its
  callback passes to \<^verbatim>\<open>sendLiveNotificationEmails\<close> (\<open>None\<close> for a call without
  arguments). The instant is kept by the runtime only; no code reads it.
\<close>

record timer =
  since :: real
  delay :: real
  arg :: "string option"

record world =
  collection :: "subscriber list"
  outbox :: "(string \<times> string) list"
  console :: "log_line list"
  timers :: "timer list"

text \<open>
  The runtime's numbers, as far as \<^verbatim>\<open>currentTime - startTime\<close> and
  \<^verbatim>\<open>timeElapsed > FOLLOW_UP_TIME_LIMIT\<close> need them: the finite doubles (each the
  real it stands for), the two infinities and \<^verbatim>\<open>NaN\<close>. The difference of two
  finite doubles is the exact difference rounded to a double; the rounding \<open>rnd\<close>
  (to an infinity when out of range) is the runtime's and is taken from the
  surroundings.
\<close>

datatype jsnum = NaN | NegInf | Num real | PosInf

fun js_minus :: "(real \<Rightarrow> jsnum) \<Rightarrow> jsnum \<Rightarrow> jsnum \<Rightarrow> jsnum" where
  "js_minus rnd NaN y = NaN"
| "js_minus rnd x NaN = NaN"
| "js_minus rnd (Num a) (Num b) = rnd (a - b)"
| "js_minus rnd (Num a) PosInf = NegInf"
| "js_minus rnd (Num a) NegInf = PosInf"
| "js_minus rnd PosInf PosInf = NaN"
| "js_minus rnd PosInf y = PosInf"
| "js_minus rnd NegInf NegInf = NaN"
| "js_minus rnd NegInf y = NegInf"

fun js_gt :: "jsnum \<Rightarrow> jsnum \<Rightarrow> bool" where
  "js_gt NaN y = False"
| "js_gt x NaN = False"
| "js_gt (Num a) (Num b) = (a > b)"
| "js_gt (Num a) PosInf = False"
| "js_gt (Num a) NegInf = True"
| "js_gt PosInf PosInf = False"
| "js_gt PosInf y = True"
| "js_gt NegInf y = False"

text \<open>
  What the surroundings supply to one operation: the clock (\<^verbatim>\<open>Date.now()\<close>, in
  milliseconds), whether the mail transport accepts a message for a recipient, whether
  the store answers, the runtime's numeric reading of a string that holds no
  \<open>@\<close> (see \<open>ToNumber\<close> below), and the runtime's rounding of a real to a double.
\<close>

record env =
  now :: real
  smtp :: "string \<Rightarrow> bool"
  store_up :: bool
  numeric :: "string \<Rightarrow> jsnum"
  to_double :: "real \<Rightarrow> jsnum"

datatype body =
    Message string
  | Error string
  | SiteLive bool
  | Access bool bool
  | Success bool

type_synonym response = "nat \<times> body"


definition FOLLOW_UP_TIME_LIMIT :: real where
  "FOLLOW_UP_TIME_LIMIT = 5 * 1000"

definition confirmation_subject :: string where
  "confirmation_subject = ''Subscription Confirmation''"

definition live_subject :: string where
  "live_subject = ''Important Update: Website is Now Live!''"

definition log :: "log_line \<Rightarrow> world \<Rightarrow> world" where
  "log l w = w\<lparr>console := console w @ [l]\<rparr>"

subsection \<open>The Subscriber model and the transporter\<close>

text \<open>
  \<^verbatim>\<open>new Subscriber({ email }).save()\<close>: the schema default makes the new document
  \<^verbatim>\<open>isComingSoon: true\<close>; the unique index on \<^verbatim>\<open>email\<close> rejects a second document
  with the same address.
\<close>

definition save :: "env \<Rightarrow> string \<Rightarrow> world \<Rightarrow> (error + subscriber) \<times> world" where
  "save ev e w =
     (if \<not> store_up ev then (Inl StoreUnavailable, w)
      else if e \<in> set (map email (collection w)) then (Inl DuplicateKey, w)
      else
        let doc = \<lparr>email = e, isComingSoon = True\<rparr>
        in (Inr doc, w\<lparr>collection := collection w @ [doc]\<rparr>))"

definition Subscriber_find :: "env \<Rightarrow> (subscriber \<Rightarrow> bool) \<Rightarrow> world \<Rightarrow> error + subscriber list" where
  "Subscriber_find ev p w =
     (if store_up ev then Inr (filter p (collection w)) else Inl StoreUnavailable)"

definition Subscriber_findOne :: "env \<Rightarrow> string \<Rightarrow> world \<Rightarrow> error + subscriber option" where
  "Subscriber_findOne ev e w =
     (if store_up ev then Inr (List.find (\<lambda>d. email d = e) (collection w))
      else Inl StoreUnavailable)"

definition Subscriber_countDocuments :: "env \<Rightarrow> (subscriber \<Rightarrow> bool) \<Rightarrow> world \<Rightarrow> error + nat" where
  "Subscriber_countDocuments ev p w =
     (if store_up ev then Inr (length (filter p (collection w))) else Inl StoreUnavailable)"

fun update_first :: "string \<Rightarrow> (subscriber \<Rightarrow> subscriber) \<Rightarrow> subscriber list \<Rightarrow> subscriber list" where
  "update_first e f [] = []"
| "update_first e f (d # ds) = (if email d = e then f d # ds else d # update_first e f ds)"

text \<open>
  An update document, as far as the two files write one: what it assigns to
  \<^verbatim>\<open>isComingSoon\<close> and to \<^verbatim>\<open>followUpEmailSent\<close>, if anything.
  \<^verbatim>\<open>findOneAndUpdate\<close> casts it to the strict schema before it reaches the store:
  the assignment to the undeclared path is dropped.
\<close>

record update_doc =
  set_isComingSoon :: "bool option"
  set_followUpEmailSent :: "bool option"

definition cast_update :: "update_doc \<Rightarrow> update_doc" where
  "cast_update u = u\<lparr>set_followUpEmailSent := None\<rparr>"

definition apply_update :: "update_doc \<Rightarrow> subscriber \<Rightarrow> subscriber" where
  "apply_update u d =
     (case set_isComingSoon u of None \<Rightarrow> d | Some b \<Rightarrow> d\<lparr>isComingSoon := b\<rparr>)"

definition Subscriber_findOneAndUpdate ::
  "env \<Rightarrow> string \<Rightarrow> update_doc \<Rightarrow> world \<Rightarrow> (error + unit) \<times> world" where
  "Subscriber_findOneAndUpdate ev e u w =
     (if store_up ev
      then (Inr (), w\<lparr>collection := update_first e (apply_update (cast_update u)) (collection w)\<rparr>)
      else (Inl StoreUnavailable, w))"

fun remove_first :: "string \<Rightarrow> subscriber list \<Rightarrow> subscriber list" where
  "remove_first e [] = []"
| "remove_first e (d # ds) = (if email d = e then ds else d # remove_first e ds)"

text \<open>\<^verbatim>\<open>deleteOne\<close> answers with \<^verbatim>\<open>deletedCount\<close>. Every stored document has
  an email, so a filter without one matches nothing.\<close>

definition deleteOne :: "env \<Rightarrow> string option \<Rightarrow> world \<Rightarrow> (error + nat) \<times> world" where
  "deleteOne ev body w =
     (if \<not> store_up ev then (Inl StoreUnavailable, w)
      else case body of
        None \<Rightarrow> (Inr 0, w)
      | Some e \<Rightarrow>
          if e \<in> set (map email (collection w))
          then (Inr 1, w\<lparr>collection := remove_first e (collection w)\<rparr>)
          else (Inr 0, w))"

text \<open>\<^verbatim>\<open>transporter.sendMail\<close>: a message the transport accepts is appended to the
  outbox as (recipient, subject); a rejected one raises.\<close>

definition transporter_sendMail :: "env \<Rightarrow> string \<times> string \<Rightarrow> world \<Rightarrow> (error + unit) \<times> world" where
  "transporter_sendMail ev m w =
     (if smtp ev (fst m) then (Inr (), w\<lparr>outbox := outbox w @ [m]\<rparr>) else (Inl MailError, w))"

definition setTimeout :: "env \<Rightarrow> string option \<Rightarrow> real \<Rightarrow> world \<Rightarrow> world" where
  "setTimeout ev a d w = w\<lparr>timers := timers w @ [\<lparr>since = now ev, delay = d, arg = a\<rparr>]\<rparr>"

section \<open>Routes\<close>

subsection \<open>POST /api/subscribe\<close>

text \<open>The request body is read as its \<^verbatim>\<open>email\<close> member: \<open>None\<close> when it is missing.
  The guard \<^verbatim>\<open>!email\<close> also rejects the empty string.\<close>

definition subscribe_catch :: "error \<Rightarrow> world \<Rightarrow> response \<times> world" where
  "subscribe_catch err w =
     (if error_code err = Some 11000
      then ((400, Error ''This email is already subscribed.''), w)
      else ((500, Error ''Server error''), log (SubscriptionError err) w))"

definition subscribe_A :: "env \<Rightarrow> string option \<Rightarrow> world \<Rightarrow> response \<times> world" where
  "subscribe_A ev body w =
     (case body of
        None \<Rightarrow> ((400, Error ''Email is required''), w)
      | Some e \<Rightarrow>
          if e = [] then ((400, Error ''Email is required''), w)
          else
            (case save ev e w of
               (Inl err, w1) \<Rightarrow> subscribe_catch err w1
             | (Inr newSubscriber, w1) \<Rightarrow>
                 (case transporter_sendMail ev (e, confirmation_subject) w1 of
                    (Inl err, w2) \<Rightarrow> subscribe_catch err w2
                  | (Inr u, w2) \<Rightarrow>
                      ((200, Message ''Subscription successful, confirmation email sent.''),
                       log ConfirmationResponse w2))))"

definition subscribe_B :: "env \<Rightarrow> string option \<Rightarrow> world \<Rightarrow> response \<times> world" where
  "subscribe_B ev body w =
     (case body of
        None \<Rightarrow> ((400, Error ''Email is required''), w)
      | Some e \<Rightarrow>
          if e = [] then ((400, Error ''Email is required''), w)
          else
            (case save ev e w of
               (Inl err, w1) \<Rightarrow> subscribe_catch err w1
             | (Inr newSubscriber, w1) \<Rightarrow>
                 (case transporter_sendMail ev (e, confirmation_subject) w1 of
                    (Inl err, w2) \<Rightarrow> subscribe_catch err w2
                  | (Inr u, w2) \<Rightarrow>
                      ((200, Message ''Subscription successful, confirmation email sent.''),
                       setTimeout ev (Some (email newSubscriber)) FOLLOW_UP_TIME_LIMIT
                         (log (ConfirmationSent e) w2)))))"

subsection \<open>GET /api/site-status (the same in both files)\<close>

definition site_status :: "env \<Rightarrow> world \<Rightarrow> response \<times> world" where
  "site_status ev w =
     (case Subscriber_find ev (\<lambda>d. isComingSoon d = False) w of
        Inl err \<Rightarrow> ((500, Error ''Server error''), log (SiteStatusError err) w)
      | Inr liveSubscribers \<Rightarrow> ((200, SiteLive (length liveSubscribers > 0)), w))"

subsection \<open>POST /api/unsubscribe (part_000)\<close>

text \<open>
  The identifiers part_000 binds at module level. The unsubscribe route names
  \<^verbatim>\<open>User\<close>, which is none of them and no global of the runtime: evaluating it raises
  a reference error inside the route's \<^verbatim>\<open>try\<close>, before any store call.
\<close>

definition module_bindings :: "string list" where
  "module_bindings =
     [''express'', ''mongoose'', ''nodemailer'', ''cors'', ''app'', ''PORT'',
      ''FOLLOW_UP_TIME_LIMIT'', ''emailSchema'', ''Subscriber'', ''transporter'',
      ''sendLiveNotificationEmails'']"

definition resolve :: "string \<Rightarrow> error + unit" where
  "resolve name = (if name \<in> set module_bindings then Inr () else Inl (ReferenceError name))"

definition unsubscribe :: "env \<Rightarrow> string option \<Rightarrow> world \<Rightarrow> response \<times> world" where
  "unsubscribe ev body w =
     (case resolve ''User'' of
        Inl err \<Rightarrow>
          ((500, Error ''An error occurred while unsubscribing.''), log (UnsubscribeError err) w)
      | Inr u \<Rightarrow>
          (case deleteOne ev body w of
             (Inl err, w1) \<Rightarrow>
               ((500, Error ''An error occurred while unsubscribing.''),
                log (UnsubscribeError err) w1)
           | (Inr deletedCount, w1) \<Rightarrow>
               if deletedCount > 0 then ((200, Success True), w1)
               else ((404, Error ''User not found.''), w1)))"

subsection \<open>POST /api/check-access (part_000)\<close>

definition check_access :: "env \<Rightarrow> string option \<Rightarrow> world \<Rightarrow> response \<times> world" where
  "check_access ev body w =
     (case body of
        None \<Rightarrow> ((400, Error ''Email is required''), w)
      | Some e \<Rightarrow>
          if e = [] then ((400, Error ''Email is required''), w)
          else
            (case Subscriber_findOne ev e w of
               Inl err \<Rightarrow> ((500, Error ''Server error''), log (CheckAccessError err) w)
             | Inr subscriber \<Rightarrow>
                 (case Subscriber_countDocuments ev (\<lambda>d. isComingSoon d = False) w of
                    Inl err \<Rightarrow> ((500, Error ''Server error''), log (CheckAccessError err) w)
                  | Inr n \<Rightarrow>
                      (case subscriber of
                         Some d \<Rightarrow> ((200, Access (isComingSoon d = False) (n > 0)), w)
                       | None \<Rightarrow> ((200, Access False (n > 0)), w)))))"

text \<open>The store queries of the specification's data model, used to state results.\<close>

definition countActive :: "world \<Rightarrow> nat" where
  "countActive w = length (filter (\<lambda>d. \<not> isComingSoon d) (collection w))"

definition lookup :: "string \<Rightarrow> world \<Rightarrow> subscriber option" where
  "lookup e w = List.find (\<lambda>d. email d = e) (collection w)"

definition records_of :: "string \<Rightarrow> world \<Rightarrow> subscriber list" where
  "records_of e w = filter (\<lambda>d. email d = e) (collection w)"

definition unique_emails :: "world \<Rightarrow> bool" where
  "unique_emails w = distinct (map email (collection w))"

section \<open>The broadcast pass\<close>

subsection \<open>server.js: sendLiveNotificationEmails\<close>

text \<open>The update documents \<^verbatim>\<open>{ isComingSoon: false }\<close> of server.js and
  \<^verbatim>\<open>{ isComingSoon: false, followUpEmailSent: true }\<close> of part_000.\<close>

definition update_doc_A :: update_doc where
  "update_doc_A = \<lparr>set_isComingSoon = Some False, set_followUpEmailSent = None\<rparr>"

definition update_doc_B :: update_doc where
  "update_doc_B = \<lparr>set_isComingSoon = Some False, set_followUpEmailSent = Some True\<rparr>"

text \<open>What each of them does to the stored document.\<close>

definition update_A :: "subscriber \<Rightarrow> subscriber" where
  "update_A d = apply_update (cast_update update_doc_A) d"

definition update_B :: "subscriber \<Rightarrow> subscriber" where
  "update_B d = apply_update (cast_update update_doc_B) d"

text \<open>
  The \<^verbatim>\<open>for\<close> loop over the documents the query returned. A rejected
  \<^verbatim>\<open>sendMail\<close> or update leaves the loop; the one \<^verbatim>\<open>try\<close> around query and loop
  catches it.
\<close>

fun notify_each_A :: "env \<Rightarrow> subscriber list \<Rightarrow> world \<Rightarrow> (error + unit) \<times> world" where
  "notify_each_A ev [] w = (Inr (), w)"
| "notify_each_A ev (s # rest) w =
     (case transporter_sendMail ev (email s, live_subject) w of
        (Inl err, w1) \<Rightarrow> (Inl err, w1)
      | (Inr u, w1) \<Rightarrow>
          (case Subscriber_findOneAndUpdate ev (email s) update_doc_A
                  (log (FollowUpSent (email s)) w1) of
             (Inl err, w2) \<Rightarrow> (Inl err, w2)
           | (Inr u, w2) \<Rightarrow> notify_each_A ev rest w2))"

definition sendLiveNotificationEmails_A :: "env \<Rightarrow> world \<Rightarrow> world" where
  "sendLiveNotificationEmails_A ev w =
     (case Subscriber_find ev (\<lambda>d. isComingSoon d = True) w of
        Inl err \<Rightarrow> log (FollowUpError err) w
      | Inr subscribers \<Rightarrow>
          (case notify_each_A ev subscribers w of
             (Inl err, w1) \<Rightarrow> log (FollowUpError err) w1
           | (Inr u, w1) \<Rightarrow> log AllFollowUpsSent w1))"


subsection \<open>part_000: sendLiveNotificationEmails(startTime)\<close>

text \<open>
  \<^verbatim>\<open>currentTime - startTime\<close> converts \<^verbatim>\<open>startTime\<close> to a number. \<^verbatim>\<open>undefined\<close>
  converts to \<^verbatim>\<open>NaN\<close>; so does every string that is not a numeric literal, and no
  numeric literal holds the character \<open>@\<close>. The reading of the other strings is the
  runtime's, taken from \<open>numeric\<close>.
\<close>

definition ToNumber :: "env \<Rightarrow> string option \<Rightarrow> jsnum" where
  "ToNumber ev v =
     (case v of
        None \<Rightarrow> NaN
      | Some s \<Rightarrow> if CHR ''@'' \<in> set s then NaN else numeric ev s)"

fun notify_each_B :: "env \<Rightarrow> subscriber list \<Rightarrow> world \<Rightarrow> (error + unit) \<times> world" where
  "notify_each_B ev [] w = (Inr (), w)"
| "notify_each_B ev (s # rest) w =
     (if js_not (followUpEmailSent s) then
        (case transporter_sendMail ev (email s, live_subject) w of
           (Inl err, w1) \<Rightarrow> (Inl err, w1)
         | (Inr u, w1) \<Rightarrow>
             (case Subscriber_findOneAndUpdate ev (email s) update_doc_B
                     (log (FollowUpSent (email s)) w1) of
                (Inl err, w2) \<Rightarrow> (Inl err, w2)
              | (Inr u, w2) \<Rightarrow> notify_each_B ev rest w2))
      else notify_each_B ev rest w)"

definition sendLiveNotificationEmails_B :: "env \<Rightarrow> string option \<Rightarrow> world \<Rightarrow> world" where
  "sendLiveNotificationEmails_B ev startTime w =
     (case Subscriber_find ev (\<lambda>d. isComingSoon d = True) w of
        Inl err \<Rightarrow> log (FollowUpError err) w
      | Inr subscribers \<Rightarrow>
          let currentTime = Num (now ev);
              timeElapsed = js_minus (to_double ev) currentTime (ToNumber ev startTime)
          in if js_gt timeElapsed (Num FOLLOW_UP_TIME_LIMIT) then log TimeLimitExceeded w
             else
               (case notify_each_B ev subscribers w of
                  (Inl err, w1) \<Rightarrow> log (FollowUpError err) w1
                | (Inr u, w1) \<Rightarrow> log AllFollowUpsSent w1))"

section \<open>The two processes\<close>

text \<open>
  A process takes one event at a time: a request to one of its routes, or the firing
  of the pending timer with a given index, which the runtime allows once the timer's
  delay has passed. Each event comes with the surroundings it meets. Here a route
  handler and a broadcast pass run from start to end without another event in
  between; a later section drops that for the pass of part_000.
\<close>

datatype request_A = Subscribe_A "string option" | SiteStatus_A

datatype request_B =
    Subscribe_B "string option"
  | Unsubscribe_B "string option"
  | CheckAccess_B "string option"
  | SiteStatus_B

datatype 'r event = Request 'r | Fire nat

fun handle_A :: "env \<Rightarrow> request_A \<Rightarrow> world \<Rightarrow> response \<times> world" where
  "handle_A ev (Subscribe_A body) w = subscribe_A ev body w"
| "handle_A ev SiteStatus_A w = site_status ev w"

fun handle_B :: "env \<Rightarrow> request_B \<Rightarrow> world \<Rightarrow> response \<times> world" where
  "handle_B ev (Subscribe_B body) w = subscribe_B ev body w"
| "handle_B ev (Unsubscribe_B body) w = unsubscribe ev body w"
| "handle_B ev (CheckAccess_B body) w = check_access ev body w"
| "handle_B ev SiteStatus_B w = site_status ev w"

definition due :: "env \<Rightarrow> world \<Rightarrow> nat \<Rightarrow> bool" where
  "due ev w i = (i < length (timers w) \<and> since (timers w ! i) + delay (timers w ! i) \<le> now ev)"

definition clear :: "nat \<Rightarrow> world \<Rightarrow> world" where
  "clear i w = w\<lparr>timers := take i (timers w) @ drop (Suc i) (timers w)\<rparr>"

fun step_A :: "env \<times> request_A event \<Rightarrow> world \<Rightarrow> world" where
  "step_A (ev, Request r) w = snd (handle_A ev r w)"
| "step_A (ev, Fire i) w =
     (if due ev w i then sendLiveNotificationEmails_A ev (clear i w) else w)"

fun step_B :: "env \<times> request_B event \<Rightarrow> world \<Rightarrow> world" where
  "step_B (ev, Request r) w = snd (handle_B ev r w)"
| "step_B (ev, Fire i) w =
     (if due ev w i then sendLiveNotificationEmails_B ev (arg (timers w ! i)) (clear i w) else w)"


fun run_B :: "(env \<times> request_B event) list \<Rightarrow> world \<Rightarrow> world" where
  "run_B [] w = w"
| "run_B (x # xs) w = run_B xs (step_B x w)"

text \<open>The world when server.js has been loaded at instant \<open>now ev\<close> over a store
  that holds \<open>ds\<close>: loading it calls \<^verbatim>\<open>startDelayedEmails()\<close> once, at top
  level. part_000 sets no timer when loaded.\<close>

definition fresh :: "subscriber list \<Rightarrow> world" where
  "fresh ds = \<lparr>collection = ds, outbox = [], console = [], timers = []\<rparr>"


definition boot_B :: "subscriber list \<Rightarrow> world" where
  "boot_B ds = fresh ds"


text \<open>How often the flag of the document for \<open>e\<close> goes from true to false in a run.\<close>

definition awaiting :: "string \<Rightarrow> world \<Rightarrow> bool" where
  "awaiting e w = (case lookup e w of Some d \<Rightarrow> isComingSoon d | None \<Rightarrow> False)"

definition active :: "string \<Rightarrow> world \<Rightarrow> bool" where
  "active e w = (case lookup e w of Some d \<Rightarrow> \<not> isComingSoon d | None \<Rightarrow> False)"

fun flips_A :: "string \<Rightarrow> (env \<times> request_A event) list \<Rightarrow> world \<Rightarrow> nat" where
  "flips_A e [] w = 0"
| "flips_A e (x # xs) w =
     (if awaiting e w \<and> active e (step_A x w) then 1 else 0) + flips_A e xs (step_A x w)"

fun flips_B :: "string \<Rightarrow> (env \<times> request_B event) list \<Rightarrow> world \<Rightarrow> nat" where
  "flips_B e [] w = 0"
| "flips_B e (x # xs) w =
     (if awaiting e w \<and> active e (step_B x w) then 1 else 0) + flips_B e xs (step_B x w)"

text \<open>The live notifications a step hands to the transport: what it appends to the outbox.\<close>

definition sent_live :: "string \<Rightarrow> world \<Rightarrow> world \<Rightarrow> bool" where
  "sent_live e w w' = ((e, live_subject) \<in> set (drop (length (outbox w)) (outbox w')))"

definition live_count :: "string \<Rightarrow> world \<Rightarrow> nat" where
  "live_count e w = count_list (outbox w) (e, live_subject)"

section \<open>Vocabulary for the results\<close>

text \<open>The documents a pass finds, in store order, and those among them that part_000's
  guard lets through.\<close>

definition pending_A :: "world \<Rightarrow> subscriber list" where
  "pending_A w = filter (\<lambda>d. isComingSoon d = True) (collection w)"

definition pending_B :: "world \<Rightarrow> subscriber list" where
  "pending_B w = filter (\<lambda>d. js_not (followUpEmailSent d)) (pending_A w)"

text \<open>The documents of a list up to the first one whose mail the transport rejects.\<close>

definition served :: "env \<Rightarrow> subscriber list \<Rightarrow> subscriber list" where
  "served ev ss = takeWhile (\<lambda>s. smtp ev (email s)) ss"

text \<open>A pass that has served \<open>ss\<close>: one mail, one log line and one update for each.\<close>

definition mark_all :: "(subscriber \<Rightarrow> subscriber) \<Rightarrow> subscriber list \<Rightarrow> world \<Rightarrow> world" where
  "mark_all f ss w =
     w\<lparr>collection := foldl (\<lambda>c s. update_first (email s) f c) (collection w) ss,
       outbox := outbox w @ map (\<lambda>s. (email s, live_subject)) ss,
       console := console w @ map (\<lambda>s. FollowUpSent (email s)) ss\<rparr>"

text \<open>Whether part_000's pass gives up at its time check.\<close>

definition abandoned :: "env \<Rightarrow> string option \<Rightarrow> bool" where
  "abandoned ev startTime =
     js_gt (js_minus (to_double ev) (Num (now ev)) (ToNumber ev startTime))
       (Num FOLLOW_UP_TIME_LIMIT)"

text \<open>
  One reading of "the iteration continues to the next subscriber": a pass hands a live
  notification to the transport for every pending document whose mail the transport
  accepts.
\<close>

definition continues_past_failure_A :: "env \<Rightarrow> world \<Rightarrow> bool" where
  "continues_past_failure_A ev w =
     list_all (\<lambda>d. sent_live (email d) w (sendLiveNotificationEmails_A ev w))
       (filter (\<lambda>d. smtp ev (email d)) (pending_A w))"

definition continues_past_failure_B :: "env \<Rightarrow> string option \<Rightarrow> world \<Rightarrow> bool" where
  "continues_past_failure_B ev startTime w =
     list_all (\<lambda>d. sent_live (email d) w (sendLiveNotificationEmails_B ev startTime w))
       (filter (\<lambda>d. smtp ev (email d)) (pending_B w))"

text \<open>
  What one step may do to the document for \<open>e\<close>: a document that appears is awaiting
  launch; an active document stays active; and the flag goes from true to false only
  in a step that handed a live notification for \<open>e\<close> to the transport.
\<close>

definition lifecycle_ok :: "string \<Rightarrow> world \<Rightarrow> world \<Rightarrow> bool" where
  "lifecycle_ok e w w' =
     ((lookup e w = None \<longrightarrow> \<not> active e w') \<and>
      (active e w \<longrightarrow> active e w') \<and>
      (awaiting e w \<and> active e w' \<longrightarrow> sent_live e w w'))"

section \<open>Sample surroundings and worlds\<close>

text \<open>In the sample surroundings no string without \<open>@\<close> is read as a number, so no
  sample run subtracts two finite numbers; their rounding is left as the identity.\<close>

definition env_up :: env where
  "env_up = \<lparr>now = 0, smtp = (\<lambda>r. True), store_up = True, numeric = (\<lambda>s. NaN), to_double = Num\<rparr>"

definition env_mail_down :: env where
  "env_mail_down = \<lparr>now = 0, smtp = (\<lambda>r. False), store_up = True, numeric = (\<lambda>s. NaN), to_double = Num\<rparr>"

definition env_at :: "real \<Rightarrow> env" where
  "env_at t = \<lparr>now = t, smtp = (\<lambda>r. True), store_up = True, numeric = (\<lambda>s. NaN), to_double = Num\<rparr>"

definition world_mixed :: world where
  "world_mixed = fresh
     [\<lparr>email = ''ann@x.org'', isComingSoon = True\<rparr>,
      \<lparr>email = ''bob@x.org'', isComingSoon = False\<rparr>]"

definition env_cy_bounces :: env where
  "env_cy_bounces =
     \<lparr>now = 0, smtp = (\<lambda>r. r \<noteq> ''cy@x.org''), store_up = True, numeric = (\<lambda>s. NaN), to_double = Num\<rparr>"

definition ann :: subscriber where
  "ann = \<lparr>email = ''ann@x.org'', isComingSoon = True\<rparr>"

definition cy :: subscriber where
  "cy = \<lparr>email = ''cy@x.org'', isComingSoon = True\<rparr>"

definition dan :: subscriber where
  "dan = \<lparr>email = ''dan@x.org'', isComingSoon = True\<rparr>"

definition world_three :: world where
  "world_three = fresh [ann, cy, dan]"

section \<open>part_000 with passes that interleave\<close>

text \<open>
  \<^verbatim>\<open>sendLiveNotificationEmails\<close> is an async function: at each \<^verbatim>\<open>await\<close> it hands
  control back, and other timers and requests run before it goes on. A pass in flight
  is at one of its three awaits: the query (it holds its argument), the
  \<^verbatim>\<open>sendMail\<close> for a document of its query result (it holds that document and the
  ones after it), or the update for that document. The awaited operation takes effect
  when the pass is resumed.
\<close>

datatype task =
    AwaitFind "string option"
  | AwaitSend subscriber "subscriber list"
  | AwaitUpdate subscriber "subscriber list"

text \<open>The loop from the top of an iteration to its next \<^verbatim>\<open>await\<close>: the guard reads
  the document as the query returned it.\<close>

fun next_send :: "subscriber list \<Rightarrow> world \<Rightarrow> task option \<times> world" where
  "next_send [] w = (None, log AllFollowUpsSent w)"
| "next_send (s # rest) w =
     (if js_not (followUpEmailSent s) then (Some (AwaitSend s rest), w) else next_send rest w)"

fun resume :: "env \<Rightarrow> task \<Rightarrow> world \<Rightarrow> task option \<times> world" where
  "resume ev (AwaitFind startTime) w =
     (case Subscriber_find ev (\<lambda>d. isComingSoon d = True) w of
        Inl err \<Rightarrow> (None, log (FollowUpError err) w)
      | Inr subscribers \<Rightarrow>
          let currentTime = Num (now ev);
              timeElapsed = js_minus (to_double ev) currentTime (ToNumber ev startTime)
          in if js_gt timeElapsed (Num FOLLOW_UP_TIME_LIMIT) then (None, log TimeLimitExceeded w)
             else next_send subscribers w)"
| "resume ev (AwaitSend s rest) w =
     (case transporter_sendMail ev (email s, live_subject) w of
        (Inl err, w1) \<Rightarrow> (None, log (FollowUpError err) w1)
      | (Inr u, w1) \<Rightarrow> (Some (AwaitUpdate s rest), log (FollowUpSent (email s)) w1))"
| "resume ev (AwaitUpdate s rest) w =
     (case Subscriber_findOneAndUpdate ev (email s) update_doc_B w of
        (Inl err, w1) \<Rightarrow> (None, log (FollowUpError err) w1)
      | (Inr u, w1) \<Rightarrow> next_send rest w1)"

text \<open>
  A turn of the event loop: a request is served (route handlers are still taken as
  one step), a due timer expires and its callback starts a pass up to the query, or
  the pass with a given index among those in flight is resumed.
\<close>

datatype turn = Serve request_B | Expire nat | Resume nat

fun turn_B :: "env \<times> turn \<Rightarrow> world \<times> task list \<Rightarrow> world \<times> task list" where
  "turn_B (ev, Serve r) (w, ts) = (snd (handle_B ev r w), ts)"
| "turn_B (ev, Expire i) (w, ts) =
     (if due ev w i then (clear i w, ts @ [AwaitFind (arg (timers w ! i))]) else (w, ts))"
| "turn_B (ev, Resume k) (w, ts) =
     (if k < length ts then
        (case resume ev (ts ! k) w of
           (None, w') \<Rightarrow> (w', take k ts @ drop (Suc k) ts)
         | (Some t, w') \<Rightarrow> (w', ts[k := t]))
      else (w, ts))"

fun play_B :: "(env \<times> turn) list \<Rightarrow> world \<times> task list \<Rightarrow> world \<times> task list" where
  "play_B [] p = p"
| "play_B (x # xs) p = play_B xs (turn_B x p)"

text \<open>ann subscribes at instant 0 and cy 100 ms later. ann's timer expires and its pass
  queries the store and starts sending to ann; cy's timer expires and its pass
  queries the store before the first pass has written anything. Then both go on in
  turn to their ends.\<close>

definition overlap :: "(env \<times> turn) list" where
  "overlap =
     [(env_at 0, Serve (Subscribe_B (Some ''ann@x.org''))),
      (env_at 100, Serve (Subscribe_B (Some ''cy@x.org''))),
      (env_at 5000, Expire 0), (env_at 5010, Resume 0),
      (env_at 5100, Expire 0), (env_at 5110, Resume 1),
      (env_at 5900, Resume 0), (env_at 5950, Resume 1),
      (env_at 6000, Resume 0), (env_at 6050, Resume 1),
      (env_at 6900, Resume 0), (env_at 6950, Resume 1),
      (env_at 7000, Resume 0), (env_at 7050, Resume 0)]"

text \<open>A pass resumed again and again with nothing in between, under the same
  surroundings.\<close>

function drain :: "env \<Rightarrow> task \<Rightarrow> world \<Rightarrow> world" where
  "drain ev t w =
     (case resume ev t w of
        (None, w') \<Rightarrow> w'
      | (Some t', w') \<Rightarrow> drain ev t' w')"
  by pat_completeness auto

termination
proof (relation "measure (\<lambda>(ev, t, w).
    case t of AwaitFind a \<Rightarrow> 2 * length (collection w) + 3
            | AwaitSend s rest \<Rightarrow> 2 * length rest + 2
            | AwaitUpdate s rest \<Rightarrow> 2 * length rest + 1)")
  show "wf (measure (\<lambda>(ev, t, w).
    case t of AwaitFind a \<Rightarrow> 2 * length (collection w) + 3
            | AwaitSend s rest \<Rightarrow> 2 * length rest + 2
            | AwaitUpdate s rest \<Rightarrow> 2 * length rest + 1))"
    by simp
next
  fix ev t w x t' w'
  assume "(x, w') = resume ev t w" and "x = Some t'"
  then have step: "resume ev t w = (Some t', w')" by simp
  have next_send_shorter: "\<exists>s rest. u = AwaitSend s rest \<and> length rest < length ss"
    if "next_send ss v = (Some u, v')" for ss v u v'
    using that by (cases ss) (auto simp: followUpEmailSent_def)
  show "((ev, t', w'), (ev, t, w)) \<in> measure (\<lambda>(ev, t, w).
    case t of AwaitFind a \<Rightarrow> 2 * length (collection w) + 3
            | AwaitSend s rest \<Rightarrow> 2 * length rest + 2
            | AwaitUpdate s rest \<Rightarrow> 2 * length rest + 1)"
  proof (cases t)
    case (AwaitFind a)
    then obtain s rest where "t' = AwaitSend s rest"
      and "length rest < length (filter isComingSoon (collection w))"
      using step next_send_shorter
      by (fastforce simp: Subscriber_find_def Let_def split: if_splits)
    moreover from this(2) have "length rest < length (collection w)"
      by (rule less_le_trans) (rule length_filter_le)
    ultimately show ?thesis
      using AwaitFind by simp
  next
    case (AwaitSend s rest)
    then have "t' = AwaitUpdate s rest"
      using step by (auto simp: transporter_sendMail_def split: if_splits)
    then show ?thesis using AwaitSend by simp
  next
    case (AwaitUpdate s rest)
    then obtain s' rest' where "t' = AwaitSend s' rest'" and "length rest' < length rest"
      using step next_send_shorter
      by (fastforce simp: Subscriber_findOneAndUpdate_def split: if_splits)
    then show ?thesis using AwaitUpdate by simp
  qed
qed

section \<open>Results on the routes\<close>

lemma guard_open [simp]: "js_not (followUpEmailSent d)"
  by (simp add: followUpEmailSent_def)

lemma update_A_eq: "update_A d = d\<lparr>isComingSoon := False\<rparr>"
  by (simp add: update_A_def apply_update_def cast_update_def update_doc_A_def)

lemma update_B_eq: "update_B d = d\<lparr>isComingSoon := False\<rparr>"
  by (simp add: update_B_def apply_update_def cast_update_def update_doc_B_def)

lemma apply_cast_A [simp]: "apply_update (cast_update update_doc_A) = update_A"
  by (rule ext) (simp add: update_A_def)

lemma apply_cast_B [simp]: "apply_update (cast_update update_doc_B) = update_B"
  by (rule ext) (simp add: update_B_def)

lemma pending_B_eq: "pending_B w = pending_A w"
  by (simp add: pending_B_def)

lemma length_filter_pos: "(0 < length (filter P xs)) = (\<exists>x \<in> set xs. P x)"
  by (induction xs) auto

lemma distinct_records_le1:
  "distinct (map email ds) \<Longrightarrow> length (filter (\<lambda>d. email d = e) ds) \<le> 1"
  by (induction ds) (auto simp: filter_empty_conv image_iff)

lemma filter_email_empty: "e \<notin> email ` set ds \<Longrightarrow> filter (\<lambda>d. email d = e) ds = []"
  by (auto simp: filter_empty_conv)

lemma find_fresh_append:
  "e \<notin> email ` set ds \<Longrightarrow> email d = e \<Longrightarrow> List.find (\<lambda>d. email d = e) (ds @ [d]) = Some d"
  by (induction ds) auto

lemma save_fresh:
  "store_up ev \<Longrightarrow> e \<notin> email ` set (collection w) \<Longrightarrow>
   save ev e w = (Inr \<lparr>email = e, isComingSoon = True\<rparr>,
     w\<lparr>collection := collection w @ [\<lparr>email = e, isComingSoon = True\<rparr>]\<rparr>)"
  by (simp add: save_def Let_def)

lemma save_present:
  "store_up ev \<Longrightarrow> e \<in> email ` set (collection w) \<Longrightarrow> save ev e w = (Inl DuplicateKey, w)"
  by (simp add: save_def)

lemma subscribe_A_present:
  "e \<noteq> [] \<Longrightarrow> store_up ev \<Longrightarrow> e \<in> email ` set (collection w) \<Longrightarrow>
   subscribe_A ev (Some e) w = ((400, Error ''This email is already subscribed.''), w)"
  by (simp add: subscribe_A_def save_present subscribe_catch_def)

lemma subscribe_B_present:
  "e \<noteq> [] \<Longrightarrow> store_up ev \<Longrightarrow> e \<in> email ` set (collection w) \<Longrightarrow>
   subscribe_B ev (Some e) w = ((400, Error ''This email is already subscribed.''), w)"
  by (simp add: subscribe_B_def save_present subscribe_catch_def)

lemma subscribe_A_collection:
  "e \<noteq> [] \<Longrightarrow> store_up ev \<Longrightarrow>
   collection (snd (subscribe_A ev (Some e) w)) =
     (if e \<in> email ` set (collection w) then collection w
      else collection w @ [\<lparr>email = e, isComingSoon = True\<rparr>])"
  by (simp add: subscribe_A_def save_def subscribe_catch_def transporter_sendMail_def log_def Let_def)

lemma subscribe_B_collection:
  "e \<noteq> [] \<Longrightarrow> store_up ev \<Longrightarrow>
   collection (snd (subscribe_B ev (Some e) w)) =
     (if e \<in> email ` set (collection w) then collection w
      else collection w @ [\<lparr>email = e, isComingSoon = True\<rparr>])"
  by (simp add: subscribe_B_def save_def subscribe_catch_def transporter_sendMail_def log_def
      setTimeout_def Let_def)

lemma one_record_after_insert:
  assumes "distinct (map email ds)"
  shows "length (filter (\<lambda>d. email d = e)
           (if e \<in> email ` set ds then ds
            else ds @ [\<lparr>email = e, isComingSoon = True\<rparr>])) = 1"
proof (cases "e \<in> email ` set ds")
  case True
  then have "filter (\<lambda>d. email d = e) ds \<noteq> []"
    by (auto simp: filter_empty_conv)
  with distinct_records_le1 [OF assms, of e] True show ?thesis
    by (cases "filter (\<lambda>d. email d = e) ds") auto
next
  case False
  then show ?thesis by (simp add: filter_email_empty)
qed

text \<open>
  C2. While the store answers, the site-status route answers 200 with
  \<^verbatim>\<open>siteLive\<close> equal to \<open>countActive w > 0\<close>, and leaves the world as it was; so it
  reports \<^verbatim>\<open>siteLive: true\<close> exactly when some stored document has
  \<^verbatim>\<open>isComingSoon\<close> false, whichever document that is and whoever asks.
\<close>

theorem site_status_live:
  assumes "store_up ev"
  shows "site_status ev w = ((200, SiteLive (countActive w > 0)), w) \<and>
    ((fst (site_status ev w) = (200, SiteLive True)) =
       (\<exists>d \<in> set (collection w). isComingSoon d = False))"
  using assms length_filter_pos [of "\<lambda>d. \<not> isComingSoon d" "collection w"]
  by (simp add: site_status_def Subscriber_find_def countActive_def)

theorem site_status_live_witness:
  "store_up env_up \<and> site_status env_up world_mixed = ((200, SiteLive True), world_mixed) \<and>
   site_status env_up (fresh []) = ((200, SiteLive False), fresh [])"
  using site_status_live [of env_up world_mixed] site_status_live [of env_up "fresh []"]
  by (simp add: env_up_def world_mixed_def fresh_def countActive_def)

text \<open>
  C7. While the store answers, a check-access request with a non-empty email is
  answered 200 with \<^verbatim>\<open>siteLive\<close> equal to \<open>countActive w > 0\<close> and with
  \<^verbatim>\<open>hasAccess\<close> equal to the negation of \<^verbatim>\<open>isComingSoon\<close> of the stored document
  for that email, or false when there is none.
\<close>

theorem check_access_ok:
  assumes "store_up ev" and "e \<noteq> []"
  shows "check_access ev (Some e) w =
      ((200, Access (case lookup e w of Some d \<Rightarrow> \<not> isComingSoon d | None \<Rightarrow> False)
                    (countActive w > 0)), w)"
  using assms
  by (simp add: check_access_def Subscriber_findOne_def Subscriber_countDocuments_def
      lookup_def countActive_def split: option.splits)

theorem check_access_ok_witness:
  "store_up env_up \<and> ''bob@x.org'' \<noteq> [] \<and>
   check_access env_up (Some ''bob@x.org'') world_mixed = ((200, Access True True), world_mixed) \<and>
   check_access env_up (Some ''ann@x.org'') world_mixed = ((200, Access False True), world_mixed) \<and>
   check_access env_up (Some ''zed@x.org'') world_mixed = ((200, Access False True), world_mixed)"
  using check_access_ok [of env_up "''bob@x.org''" world_mixed]
    check_access_ok [of env_up "''ann@x.org''" world_mixed]
    check_access_ok [of env_up "''zed@x.org''" world_mixed]
  by (simp add: env_up_def world_mixed_def fresh_def countActive_def lookup_def)

text \<open>
  C3. In both files, for an email that passes the route's required-field guard and a
  store with unique emails that answers both times: after a first subscribe call with
  that email (whatever the transport did), the store holds exactly one document for
  it, and a second subscribe call is answered 400 with the message that the email is
  already subscribed and changes nothing.
\<close>

theorem subscribe_twice:
  assumes "e \<noteq> []" and "unique_emails w" and "store_up ev1" and "store_up ev2"
  shows "(let w1 = snd (subscribe_A ev1 (Some e) w) in
            subscribe_A ev2 (Some e) w1 = ((400, Error ''This email is already subscribed.''), w1) \<and>
            length (records_of e w1) = 1) \<and>
         (let w1 = snd (subscribe_B ev1 (Some e) w) in
            subscribe_B ev2 (Some e) w1 = ((400, Error ''This email is already subscribed.''), w1) \<and>
            length (records_of e w1) = 1)"
proof -
  have present_A: "e \<in> email ` set (collection (snd (subscribe_A ev1 (Some e) w)))"
    using assms by (simp add: subscribe_A_collection)
  have present_B: "e \<in> email ` set (collection (snd (subscribe_B ev1 (Some e) w)))"
    using assms by (simp add: subscribe_B_collection)
  have one_A: "length (records_of e (snd (subscribe_A ev1 (Some e) w))) = 1"
    using assms(2) one_record_after_insert [of "collection w" e]
    unfolding records_of_def unique_emails_def subscribe_A_collection [OF assms(1,3)] by simp
  have one_B: "length (records_of e (snd (subscribe_B ev1 (Some e) w))) = 1"
    using assms(2) one_record_after_insert [of "collection w" e]
    unfolding records_of_def unique_emails_def subscribe_B_collection [OF assms(1,3)] by simp
  show ?thesis
    using assms present_A present_B one_A one_B
    by (simp add: Let_def subscribe_A_present subscribe_B_present)
qed

theorem subscribe_twice_witness:
  "''cy@x.org'' \<noteq> [] \<and> unique_emails world_mixed \<and> store_up env_up \<and> store_up env_mail_down \<and>
   subscribe_A env_up (Some ''cy@x.org'')
       (snd (subscribe_A env_mail_down (Some ''cy@x.org'') world_mixed)) =
     ((400, Error ''This email is already subscribed.''),
      snd (subscribe_A env_mail_down (Some ''cy@x.org'') world_mixed)) \<and>
   length (records_of ''cy@x.org''
       (snd (subscribe_B env_mail_down (Some ''cy@x.org'') world_mixed))) = 1"
  using subscribe_twice [of "''cy@x.org''" world_mixed env_mail_down env_up]
  by (simp add: env_up_def env_mail_down_def world_mixed_def fresh_def unique_emails_def Let_def)

text \<open>
  C10. In both files, when the insert succeeds and the transport then rejects the
  confirmation mail, the subscribe route answers 500 and the new document stays in
  the store with \<^verbatim>\<open>isComingSoon\<close> true; part_000 sets no timer on that path, so the
  two files act alike there.
\<close>

theorem subscribe_mail_failure:
  assumes "e \<noteq> []" and "store_up ev" and "e \<notin> email ` set (collection w)" and "\<not> smtp ev e"
  shows "subscribe_A ev (Some e) w =
           ((500, Error ''Server error''),
            log (SubscriptionError MailError)
              (w\<lparr>collection := collection w @
                   [\<lparr>email = e, isComingSoon = True\<rparr>]\<rparr>)) \<and>
         subscribe_B ev (Some e) w = subscribe_A ev (Some e) w \<and>
         lookup e (snd (subscribe_A ev (Some e) w)) =
           Some \<lparr>email = e, isComingSoon = True\<rparr>"
  using assms
  by (simp add: subscribe_A_def subscribe_B_def save_fresh transporter_sendMail_def
      subscribe_catch_def log_def lookup_def find_fresh_append)

theorem subscribe_mail_failure_witness:
  "''cy@x.org'' \<noteq> [] \<and> store_up env_mail_down \<and>
   ''cy@x.org'' \<notin> email ` set (collection world_mixed) \<and> \<not> smtp env_mail_down ''cy@x.org'' \<and>
   fst (subscribe_B env_mail_down (Some ''cy@x.org'') world_mixed) = (500, Error ''Server error'') \<and>
   map email (collection (snd (subscribe_B env_mail_down (Some ''cy@x.org'') world_mixed))) =
     [''ann@x.org'', ''bob@x.org'', ''cy@x.org'']"
  using subscribe_mail_failure [of "''cy@x.org''" env_mail_down world_mixed]
  by (simp add: env_mail_down_def world_mixed_def fresh_def log_def)

text \<open>
  C6. The unsubscribe route of part_000 never reaches the store: for every request and
  every world it answers 500 after the reference error on \<^verbatim>\<open>User\<close>, and the
  collection stays as it was, whether or not it holds a document for the email.
\<close>

theorem unsubscribe_reference_error:
  "unsubscribe ev body w =
     ((500, Error ''An error occurred while unsubscribing.''),
      log (UnsubscribeError (ReferenceError ''User'')) w) \<and>
   collection (snd (unsubscribe ev body w)) = collection w"
  by (simp add: unsubscribe_def resolve_def module_bindings_def log_def)

section \<open>Results on the broadcast pass\<close>

lemma update_first_emails:
  "(\<And>d. email (f d) = email d) \<Longrightarrow> map email (update_first e f ds) = map email ds"
  by (induction ds) auto

lemma find_update_first:
  "(\<And>d. email (f d) = email d) \<Longrightarrow>
   List.find (\<lambda>d. email d = e) (update_first e' f ds) =
     (if e = e' then map_option f (List.find (\<lambda>d. email d = e) ds)
      else List.find (\<lambda>d. email d = e) ds)"
  by (induction ds) auto

lemma find_mark_all:
  assumes "\<And>d. email (f d) = email d" and "\<And>d. f (f d) = f d"
  shows "List.find (\<lambda>d. email d = e) (foldl (\<lambda>c s. update_first (email s) f c) ds ss) =
     (if e \<in> email ` set ss then map_option f (List.find (\<lambda>d. email d = e) ds)
      else List.find (\<lambda>d. email d = e) ds)"
proof (induction ss arbitrary: ds)
  case Nil
  show ?case by simp
next
  case (Cons s ss)
  show ?case
    by (simp add: Cons.IH find_update_first assms option.map_comp comp_def)
qed

lemma emails_mark_all:
  assumes "\<And>d. email (f d) = email d"
  shows "map email (foldl (\<lambda>c s. update_first (email s) f c) ds ss) = map email ds"
  by (induction ss arbitrary: ds) (simp_all add: update_first_emails assms)

lemma notify_each_A_closed:
  assumes "store_up ev"
  shows "notify_each_A ev ss w =
     ((if list_all (\<lambda>s. smtp ev (email s)) ss then Inr () else Inl MailError),
      mark_all update_A (served ev ss) w)"
  using assms
proof (induction ss arbitrary: w)
  case Nil
  show ?case by (simp add: mark_all_def served_def)
next
  case (Cons s ss)
  show ?case
  proof (cases "smtp ev (email s)")
    case True
    then show ?thesis
      using Cons.prems
      by (simp add: Cons.IH transporter_sendMail_def Subscriber_findOneAndUpdate_def log_def
          mark_all_def served_def)
  next
    case False
    then show ?thesis
      by (simp add: transporter_sendMail_def mark_all_def served_def)
  qed
qed

lemma notify_each_B_closed:
  assumes "store_up ev"
  shows "notify_each_B ev ss w =
     ((if list_all (\<lambda>s. smtp ev (email s)) ss then Inr () else Inl MailError),
      mark_all update_B (served ev ss) w)"
  using assms
proof (induction ss arbitrary: w)
  case Nil
  show ?case by (simp add: mark_all_def served_def)
next
  case (Cons s ss)
  show ?case
  proof (cases "smtp ev (email s)")
    case True
    then show ?thesis
      using Cons.prems
      by (simp add: Cons.IH transporter_sendMail_def Subscriber_findOneAndUpdate_def log_def
          mark_all_def served_def)
  next
    case False
    then show ?thesis
      by (simp add: transporter_sendMail_def mark_all_def served_def)
  qed
qed

lemma pass_A_closed:
  "sendLiveNotificationEmails_A ev w =
     (if \<not> store_up ev then log (FollowUpError StoreUnavailable) w
      else if list_all (\<lambda>s. smtp ev (email s)) (pending_A w)
        then log AllFollowUpsSent (mark_all update_A (pending_A w) w)
        else log (FollowUpError MailError) (mark_all update_A (served ev (pending_A w)) w))"
proof (cases "store_up ev")
  case False
  then show ?thesis by (simp add: sendLiveNotificationEmails_A_def Subscriber_find_def)
next
  case True
  have all: "list_all (\<lambda>s. smtp ev (email s)) ss \<Longrightarrow> served ev ss = ss" for ss
    by (simp add: served_def list_all_iff)
  have found: "Subscriber_find ev isComingSoon w = Inr (pending_A w)"
    using True by (simp add: Subscriber_find_def pending_A_def)
  show ?thesis
    using True
    by (simp add: sendLiveNotificationEmails_A_def found notify_each_A_closed all)
qed

lemma pass_B_closed:
  "sendLiveNotificationEmails_B ev startTime w =
     (if \<not> store_up ev then log (FollowUpError StoreUnavailable) w
      else if abandoned ev startTime then log TimeLimitExceeded w
      else if list_all (\<lambda>s. smtp ev (email s)) (pending_B w)
        then log AllFollowUpsSent (mark_all update_B (pending_B w) w)
        else log (FollowUpError MailError) (mark_all update_B (served ev (pending_B w)) w))"
proof (cases "store_up ev")
  case False
  then show ?thesis by (simp add: sendLiveNotificationEmails_B_def Subscriber_find_def)
next
  case True
  have all: "list_all (\<lambda>s. smtp ev (email s)) ss \<Longrightarrow> served ev ss = ss" for ss
    by (simp add: served_def list_all_iff)
  have found: "Subscriber_find ev isComingSoon w = Inr (pending_A w)"
    using True by (simp add: Subscriber_find_def pending_A_def)
  show ?thesis
    using True
    by (simp add: sendLiveNotificationEmails_B_def found notify_each_B_closed
        pending_B_eq abandoned_def [symmetric] Let_def all)
qed

lemma email_update_A [simp]: "email (update_A d) = email d"
  by (simp add: update_A_eq)

lemma email_update_B [simp]: "email (update_B d) = email d"
  by (simp add: update_B_eq)

lemma update_A_idem [simp]: "update_A (update_A d) = update_A d"
  by (simp add: update_A_eq)

lemma update_B_idem [simp]: "update_B (update_B d) = update_B d"
  by (simp add: update_B_eq)

lemma outbox_mark_all [simp]:
  "outbox (mark_all f ss w) = outbox w @ map (\<lambda>s. (email s, live_subject)) ss"
  by (simp add: mark_all_def)

lemma timers_mark_all [simp]: "timers (mark_all f ss w) = timers w"
  by (simp add: mark_all_def)

lemma collection_mark_all:
  "collection (mark_all f ss w) = foldl (\<lambda>c s. update_first (email s) f c) (collection w) ss"
  by (simp add: mark_all_def)

lemma log_fields [simp]:
  "collection (log l w) = collection w" "outbox (log l w) = outbox w"
  "timers (log l w) = timers w" "console (log l w) = console w @ [l]"
  by (simp_all add: log_def)

lemma lookup_log [simp]: "lookup e (log l w) = lookup e w"
  by (simp add: lookup_def)

lemma lookup_mark_all_A:
  "lookup e (mark_all update_A ss w) =
     (if e \<in> email ` set ss then map_option update_A (lookup e w) else lookup e w)"
  unfolding lookup_def collection_mark_all by (rule find_mark_all) simp_all

lemma lookup_mark_all_B:
  "lookup e (mark_all update_B ss w) =
     (if e \<in> email ` set ss then map_option update_B (lookup e w) else lookup e w)"
  unfolding lookup_def collection_mark_all by (rule find_mark_all) simp_all

lemma sent_live_mark_all:
  "sent_live e w (log l (mark_all f ss w)) = (e \<in> email ` set ss)"
  by (auto simp: sent_live_def image_iff)

lemma sent_live_refl [simp]: "\<not> sent_live e w w"
  by (simp add: sent_live_def)

lemma sent_live_log [simp]: "\<not> sent_live e w (log l w)"
  by (simp add: sent_live_def)

lemma distinct_pending:
  "unique_emails w \<Longrightarrow> distinct (map email (pending_A w)) \<and> distinct (map email (pending_B w))"
  by (simp add: unique_emails_def pending_A_def pending_B_def distinct_map_filter)

lemma find_member:
  "distinct (map email ds) \<Longrightarrow> d \<in> set ds \<Longrightarrow> List.find (\<lambda>x. email x = email d) ds = Some d"
  by (induction ds) (auto simp: image_iff)

lemma lookup_member:
  "unique_emails w \<Longrightarrow> d \<in> set (collection w) \<Longrightarrow> lookup (email d) w = Some d"
  by (simp add: unique_emails_def lookup_def find_member)

lemma pass_A_three:
  "sendLiveNotificationEmails_A env_cy_bounces world_three =
     log (FollowUpError MailError) (mark_all update_A [ann] world_three)"
  by (simp add: pass_A_closed env_cy_bounces_def world_three_def fresh_def pending_A_def
      served_def ann_def cy_def dan_def)

lemma pass_B_three:
  "sendLiveNotificationEmails_B env_cy_bounces (Some ''dan@x.org'') world_three =
     log (FollowUpError MailError) (mark_all update_B [ann] world_three)"
  by (simp add: pass_B_closed env_cy_bounces_def world_three_def fresh_def pending_A_def
      pending_B_def abandoned_def ToNumber_def served_def ann_def cy_def dan_def)

text \<open>
  C5, as stated, fails in both files: with ann, cy and dan pending and a transport that
  rejects only cy's mail, the pass ends at cy and dan is never mailed.
\<close>

theorem pass_aborts_counterexample:
  "\<not> continues_past_failure_A env_cy_bounces world_three \<and>
   \<not> continues_past_failure_B env_cy_bounces (Some ''dan@x.org'') world_three"
  unfolding continues_past_failure_A_def continues_past_failure_B_def pass_A_three pass_B_three
  by (simp add: pending_A_def pending_B_def world_three_def fresh_def env_cy_bounces_def
      sent_live_def log_def mark_all_def ann_def cy_def dan_def)

text \<open>
  C5, amended. One \<^verbatim>\<open>try\<close> encloses the query and the whole loop. When the
  pending documents are \<open>pre @ s # post\<close>, the transport accepts the mails of
  \<open>pre\<close> and rejects the mail of \<open>s\<close>, the pass ends normally with one error line
  logged: the documents of \<open>pre\<close> have been mailed and are active; \<open>s\<close> and every
  document of \<open>post\<close> are not mailed and stay as they were.
\<close>

theorem pass_stops_at_first_failure:
  assumes "store_up ev" and "list_all (\<lambda>p. smtp ev (email p)) pre" and "\<not> smtp ev (email s)"
    and "unique_emails w"
  shows "(pending_A w = pre @ s # post \<longrightarrow>
           (let w' = sendLiveNotificationEmails_A ev w in
              w' = log (FollowUpError MailError) (mark_all update_A pre w) \<and>
              list_all (\<lambda>p. sent_live (email p) w w' \<and> active (email p) w') pre \<and>
              list_all (\<lambda>q. \<not> sent_live (email q) w w' \<and> lookup (email q) w' = Some q)
                (s # post))) \<and>
         (pending_B w = pre @ s # post \<and> \<not> abandoned ev startTime \<longrightarrow>
           (let w' = sendLiveNotificationEmails_B ev startTime w in
              w' = log (FollowUpError MailError) (mark_all update_B pre w) \<and>
              list_all (\<lambda>p. sent_live (email p) w w' \<and> active (email p) w') pre \<and>
              list_all (\<lambda>q. \<not> sent_live (email q) w w' \<and> lookup (email q) w' = Some q)
                (s # post)))"
proof -
  have stop: "served ev (pre @ s # post) = pre" "\<not> list_all (\<lambda>s. smtp ev (email s)) (pre @ s # post)"
    using assms(2,3) by (simp_all add: served_def list_all_iff takeWhile_append2)
  have rest: "list_all (\<lambda>q. \<not> sent_live (email q) w (log l (mark_all f pre w)) \<and>
                 lookup (email q) (log l (mark_all f pre w)) = Some q) (s # post)"
    if sub: "set (pre @ s # post) \<subseteq> set (collection w)"
      and dist: "distinct (map email (pre @ s # post))"
      and f: "f = update_A \<or> f = update_B" for l f
  proof -
    have "email q \<notin> email ` set pre \<and> lookup (email q) w = Some q" if "q \<in> set (s # post)" for q
      using that dist sub lookup_member [OF assms(4), of q] by (auto simp: image_iff)
    then show ?thesis
      using f by (auto simp: list_all_iff sent_live_mark_all lookup_mark_all_A lookup_mark_all_B)
  qed
  have early: "list_all (\<lambda>p. sent_live (email p) w (log l (mark_all f pre w)) \<and>
                 active (email p) (log l (mark_all f pre w))) pre"
    if sub: "set (pre @ s # post) \<subseteq> set (collection w)"
      and f: "f = update_A \<or> f = update_B" for l f
  proof -
    have "lookup (email p) w = Some p" if "p \<in> set pre" for p
      using that sub lookup_member [OF assms(4), of p] by auto
    then show ?thesis
      using f
      by (auto simp: list_all_iff sent_live_mark_all lookup_mark_all_A lookup_mark_all_B
          active_def update_A_eq update_B_eq)
  qed
  have sub_A: "set (pending_A w) \<subseteq> set (collection w)"
    by (auto simp: pending_A_def)
  have sub_B: "set (pending_B w) \<subseteq> set (collection w)"
    by (auto simp: pending_B_def pending_A_def)
  show ?thesis
  proof (intro conjI impI)
    assume split: "pending_A w = pre @ s # post"
    have pass: "sendLiveNotificationEmails_A ev w =
        log (FollowUpError MailError) (mark_all update_A pre w)"
      using assms(1,3) stop(1) by (simp add: pass_A_closed split)
    show "let w' = sendLiveNotificationEmails_A ev w in
              w' = log (FollowUpError MailError) (mark_all update_A pre w) \<and>
              list_all (\<lambda>p. sent_live (email p) w w' \<and> active (email p) w') pre \<and>
              list_all (\<lambda>q. \<not> sent_live (email q) w w' \<and> lookup (email q) w' = Some q)
                (s # post)"
      unfolding Let_def pass
      using rest [of update_A] early [of update_A] sub_A distinct_pending [OF assms(4)]
      unfolding split by blast
  next
    assume "pending_B w = pre @ s # post \<and> \<not> abandoned ev startTime"
    then have split: "pending_B w = pre @ s # post" and go: "\<not> abandoned ev startTime"
      by simp_all
    have pass: "sendLiveNotificationEmails_B ev startTime w =
        log (FollowUpError MailError) (mark_all update_B pre w)"
      using assms(1,3) stop(1) go by (simp add: pass_B_closed split)
    show "let w' = sendLiveNotificationEmails_B ev startTime w in
              w' = log (FollowUpError MailError) (mark_all update_B pre w) \<and>
              list_all (\<lambda>p. sent_live (email p) w w' \<and> active (email p) w') pre \<and>
              list_all (\<lambda>q. \<not> sent_live (email q) w w' \<and> lookup (email q) w' = Some q)
                (s # post)"
      unfolding Let_def pass
      using rest [of update_B] early [of update_B] sub_B distinct_pending [OF assms(4)]
      unfolding split by blast
  qed
qed

theorem pass_stops_at_first_failure_witness:
  "store_up env_cy_bounces \<and> list_all (\<lambda>p. smtp env_cy_bounces (email p)) [ann] \<and>
   \<not> smtp env_cy_bounces (email cy) \<and> unique_emails world_three \<and>
   pending_A world_three = [ann] @ cy # [dan] \<and>
   pending_B world_three = [ann] @ cy # [dan] \<and>
   \<not> abandoned env_cy_bounces (Some ''dan@x.org'') \<and>
   smtp env_cy_bounces (email dan) \<and>
   outbox (sendLiveNotificationEmails_A env_cy_bounces world_three) =
     [(''ann@x.org'', live_subject)] \<and>
   outbox (sendLiveNotificationEmails_B env_cy_bounces (Some ''dan@x.org'') world_three) =
     [(''ann@x.org'', live_subject)] \<and>
   lookup ''dan@x.org''
     (sendLiveNotificationEmails_B env_cy_bounces (Some ''dan@x.org'') world_three) = Some dan"
proof -
  have up: "store_up env_cy_bounces"
    and ok: "list_all (\<lambda>p. smtp env_cy_bounces (email p)) [ann]"
    and bounce: "\<not> smtp env_cy_bounces (email cy)"
    and later: "smtp env_cy_bounces (email dan)"
    by (simp_all add: env_cy_bounces_def ann_def cy_def dan_def)
  have uniq: "unique_emails world_three"
    by (simp add: unique_emails_def world_three_def fresh_def ann_def cy_def dan_def)
  have pend_A: "pending_A world_three = [ann] @ cy # [dan]"
    by (simp add: pending_A_def world_three_def fresh_def ann_def cy_def dan_def)
  have pend_B: "pending_B world_three = [ann] @ cy # [dan]"
    by (simp add: pending_B_eq pend_A)
  have go: "\<not> abandoned env_cy_bounces (Some ''dan@x.org'')"
    by (simp add: abandoned_def ToNumber_def)
  note stop = pass_stops_at_first_failure [OF up ok bounce uniq, of "[dan]" "Some ''dan@x.org''"]
  have pass_A: "sendLiveNotificationEmails_A env_cy_bounces world_three =
      log (FollowUpError MailError) (mark_all update_A [ann] world_three)"
    using stop pend_A by (simp add: Let_def)
  have pass_B: "sendLiveNotificationEmails_B env_cy_bounces (Some ''dan@x.org'') world_three =
      log (FollowUpError MailError) (mark_all update_B [ann] world_three)"
    using stop pend_B go by (simp add: Let_def)
  have dan_B: "lookup ''dan@x.org''
      (sendLiveNotificationEmails_B env_cy_bounces (Some ''dan@x.org'') world_three) = Some dan"
    unfolding pass_B
    by (simp add: lookup_def log_def mark_all_def world_three_def fresh_def ann_def cy_def dan_def)
  have out_A: "outbox (sendLiveNotificationEmails_A env_cy_bounces world_three) =
      [(''ann@x.org'', live_subject)]"
    unfolding pass_A by (simp add: world_three_def fresh_def ann_def)
  have out_B: "outbox (sendLiveNotificationEmails_B env_cy_bounces (Some ''dan@x.org'') world_three) =
      [(''ann@x.org'', live_subject)]"
    unfolding pass_B by (simp add: world_three_def fresh_def ann_def)
  show ?thesis
    using up ok bounce later uniq pend_A pend_B go dan_B out_A out_B by simp
qed

section \<open>Results on the life cycle of a subscriber\<close>

lemma lifecycle_same:
  "collection w' = collection w \<Longrightarrow> lifecycle_ok e w w'"
  by (auto simp: lifecycle_ok_def active_def awaiting_def lookup_def split: option.splits)

lemma find_append_new:
  "List.find P (ds @ [d]) = (case List.find P ds of Some x \<Rightarrow> Some x | None \<Rightarrow> if P d then Some d else None)"
  by (induction ds) auto

lemma lifecycle_insert:
  "collection w' = collection w @ [d] \<Longrightarrow> isComingSoon d \<Longrightarrow> lifecycle_ok e w w'"
  by (auto simp: lifecycle_ok_def active_def awaiting_def lookup_def find_append_new
      split: option.splits if_splits)

lemma subscribe_A_cases:
  "collection (snd (subscribe_A ev body w)) = collection w \<or>
   (\<exists>e. collection (snd (subscribe_A ev body w)) =
      collection w @ [\<lparr>email = e, isComingSoon = True\<rparr>])"
  by (simp add: subscribe_A_def save_def subscribe_catch_def transporter_sendMail_def Let_def
      split: option.splits)

lemma subscribe_B_cases:
  "collection (snd (subscribe_B ev body w)) = collection w \<or>
   (\<exists>e. collection (snd (subscribe_B ev body w)) =
      collection w @ [\<lparr>email = e, isComingSoon = True\<rparr>])"
  by (simp add: subscribe_B_def save_def subscribe_catch_def transporter_sendMail_def Let_def
      setTimeout_def split: option.splits)

lemma site_status_collection [simp]: "collection (snd (site_status ev w)) = collection w"
  by (simp add: site_status_def Subscriber_find_def)

lemma check_access_collection [simp]: "collection (snd (check_access ev body w)) = collection w"
  by (simp add: check_access_def Subscriber_findOne_def Subscriber_countDocuments_def
      split: option.splits)

lemma unsubscribe_collection [simp]: "collection (snd (unsubscribe ev body w)) = collection w"
  by (simp add: unsubscribe_def resolve_def module_bindings_def)

lemma lifecycle_handle_A: "lifecycle_ok e w (snd (handle_A ev r w))"
proof (cases r)
  case (Subscribe_A body)
  then show ?thesis
    using subscribe_A_cases [of ev body w]
    by (auto intro: lifecycle_same lifecycle_insert)
next
  case SiteStatus_A
  then show ?thesis by (simp add: lifecycle_same)
qed

lemma lifecycle_handle_B: "lifecycle_ok e w (snd (handle_B ev r w))"
proof (cases r)
  case (Subscribe_B body)
  then show ?thesis
    using subscribe_B_cases [of ev body w]
    by (auto intro: lifecycle_same lifecycle_insert)
qed (simp_all add: lifecycle_same)

lemma clear_fields [simp]:
  "collection (clear i w) = collection w" "outbox (clear i w) = outbox w"
  "console (clear i w) = console w"
  by (simp_all add: clear_def)

lemma lookup_clear [simp]: "lookup e (clear i w) = lookup e w"
  by (simp add: lookup_def)

lemma sent_live_outbox: "outbox v = outbox w \<Longrightarrow> sent_live e w w' = sent_live e v w'"
  by (simp add: sent_live_def)

lemma lifecycle_marked:
  assumes "f = update_A \<or> f = update_B"
  shows "lifecycle_ok e w (log l (mark_all f ss (clear i w)))"
proof -
  have look: "lookup e (log l (mark_all f ss (clear i w))) =
      (if e \<in> email ` set ss then map_option f (lookup e w) else lookup e w)"
    using assms by (auto simp: lookup_mark_all_A lookup_mark_all_B)
  have sent: "sent_live e w (log l (mark_all f ss (clear i w))) = (e \<in> email ` set ss)"
    using sent_live_outbox [of "clear i w" w e] by (simp add: sent_live_mark_all)
  show ?thesis
    unfolding lifecycle_ok_def active_def awaiting_def look sent
    using assms by (auto simp: update_A_eq update_B_eq split: option.splits)
qed

lemma lifecycle_pass_A: "lifecycle_ok e w (sendLiveNotificationEmails_A ev (clear i w))"
  by (simp add: pass_A_closed lifecycle_marked lifecycle_same)

lemma lifecycle_pass_B: "lifecycle_ok e w (sendLiveNotificationEmails_B ev startTime (clear i w))"
  by (simp add: pass_B_closed lifecycle_marked lifecycle_same)

lemma lifecycle_step_A: "lifecycle_ok e w (step_A x w)"
proof (cases x)
  case (Pair ev a)
  then show ?thesis
    by (cases a) (simp_all add: lifecycle_handle_A lifecycle_pass_A lifecycle_same)
qed

lemma lifecycle_step_B: "lifecycle_ok e w (step_B x w)"
proof (cases x)
  case (Pair ev a)
  then show ?thesis
    by (cases a) (simp_all add: lifecycle_handle_B lifecycle_pass_B lifecycle_same)
qed

lemma awaiting_not_active: "active e w \<Longrightarrow> \<not> awaiting e w"
  by (simp add: active_def awaiting_def split: option.splits)

lemma flips_A_active: "active e w \<Longrightarrow> flips_A e xs w = 0"
proof (induction xs arbitrary: w)
  case Nil
  show ?case by simp
next
  case (Cons x xs)
  have "active e (step_A x w)"
    using lifecycle_step_A [of e w x] Cons.prems by (simp add: lifecycle_ok_def)
  then show ?case
    using Cons.prems by (simp add: Cons.IH awaiting_not_active)
qed

lemma flips_B_active: "active e w \<Longrightarrow> flips_B e xs w = 0"
proof (induction xs arbitrary: w)
  case Nil
  show ?case by simp
next
  case (Cons x xs)
  have "active e (step_B x w)"
    using lifecycle_step_B [of e w x] Cons.prems by (simp add: lifecycle_ok_def)
  then show ?case
    using Cons.prems by (simp add: Cons.IH awaiting_not_active)
qed

lemma flips_A_once: "flips_A e xs w \<le> 1"
  by (induction xs arbitrary: w) (simp_all add: flips_A_active)

lemma flips_B_once: "flips_B e xs w \<le> 1"
  by (induction xs arbitrary: w) (simp_all add: flips_B_active)

section \<open>Sample runs, and the time check of part_000\<close>



lemma subscribed_B_ann:
  "step_B (env_at 0, Request (Subscribe_B (Some ''ann@x.org''))) (boot_B []) =
     \<lparr>collection = [ann], outbox = [(''ann@x.org'', confirmation_subject)],
      console = [ConfirmationSent ''ann@x.org''],
      timers = [\<lparr>since = 0, delay = 5000, arg = Some ''ann@x.org''\<rparr>]\<rparr>"
  by (simp add: boot_B_def fresh_def subscribe_B_def save_def transporter_sendMail_def
      setTimeout_def log_def env_at_def ann_def FOLLOW_UP_TIME_LIMIT_def Let_def)

lemma fire_B_ann:
  "step_B (env_at t, Fire 0)
     \<lparr>collection = [ann], outbox = [(''ann@x.org'', confirmation_subject)],
      console = [ConfirmationSent ''ann@x.org''],
      timers = [\<lparr>since = 0, delay = 5000, arg = Some ''ann@x.org''\<rparr>]\<rparr> =
   (if 5000 \<le> t then
     \<lparr>collection = [update_B ann],
      outbox = [(''ann@x.org'', confirmation_subject), (''ann@x.org'', live_subject)],
      console = [ConfirmationSent ''ann@x.org'', FollowUpSent ''ann@x.org'', AllFollowUpsSent],
      timers = []\<rparr>
    else \<lparr>collection = [ann], outbox = [(''ann@x.org'', confirmation_subject)],
      console = [ConfirmationSent ''ann@x.org''],
      timers = [\<lparr>since = 0, delay = 5000, arg = Some ''ann@x.org''\<rparr>]\<rparr>)"
  by (simp add: due_def clear_def pass_B_closed pending_A_def pending_B_def mark_all_def log_def
      env_at_def ann_def abandoned_def ToNumber_def)

lemma at_sign_never_abandoned: "CHR ''@'' \<in> set s \<Longrightarrow> \<not> abandoned ev (Some s)"
  by (simp add: abandoned_def ToNumber_def)

lemma abandoned_pass_B:
  "store_up ev \<Longrightarrow> abandoned ev startTime \<Longrightarrow>
   sendLiveNotificationEmails_B ev startTime w = log TimeLimitExceeded w"
  by (simp add: pass_B_closed)

text \<open>
  C4. In part_000 the timer's callback passes \<^verbatim>\<open>newSubscriber.email\<close> where the
  pass expects its start time. ann@x.org subscribes at instant 0; the timer set then
  fires at instant 60000, which is 60000 ms after it was set and beyond the 5000 ms
  window. The pass is not abandoned: it mails ann and marks her document.
\<close>

theorem late_pass_still_sends:
  "let w1 = step_B (env_at 0, Request (Subscribe_B (Some ''ann@x.org''))) (boot_B []);
       w2 = step_B (env_at 60000, Fire 0) w1
   in map arg (timers w1) = [Some ''ann@x.org''] \<and>
      list_all (\<lambda>t. now (env_at 60000) - since t > FOLLOW_UP_TIME_LIMIT) (timers w1) \<and>
      \<not> abandoned (env_at 60000) (Some ''ann@x.org'') \<and>
      outbox w2 = [(''ann@x.org'', confirmation_subject), (''ann@x.org'', live_subject)] \<and>
      collection w2 = [\<lparr>email = ''ann@x.org'', isComingSoon = False\<rparr>]"
  unfolding Let_def subscribed_B_ann fire_B_ann
  by (simp add: env_at_def FOLLOW_UP_TIME_LIMIT_def abandoned_def ToNumber_def update_B_eq ann_def)

section \<open>Results on the timer of server.js\<close>

lemma subscribe_A_timers [simp]: "timers (snd (subscribe_A ev body w)) = timers w"
  by (simp add: subscribe_A_def save_def subscribe_catch_def transporter_sendMail_def Let_def
      split: option.splits)

lemma site_status_fields [simp]:
  "timers (snd (site_status ev w)) = timers w" "outbox (snd (site_status ev w)) = outbox w"
  by (simp_all add: site_status_def Subscriber_find_def)

lemma handle_A_timers [simp]: "timers (snd (handle_A ev r w)) = timers w"
  by (cases r) simp_all

lemma pass_A_timers [simp]: "timers (sendLiveNotificationEmails_A ev w) = timers w"
  by (simp add: pass_A_closed)





lemma subjects_differ: "confirmation_subject \<noteq> live_subject"
  by (simp add: confirmation_subject_def live_subject_def)

lemma subscribe_A_outbox:
  "outbox (snd (subscribe_A ev body w)) = outbox w \<or>
   (\<exists>e. outbox (snd (subscribe_A ev body w)) = outbox w @ [(e, confirmation_subject)])"
  by (simp add: subscribe_A_def save_def subscribe_catch_def transporter_sendMail_def Let_def
      log_def split: option.splits)

lemma handle_A_live_count [simp]: "live_count e (snd (handle_A ev r w)) = live_count e w"
proof (cases r)
  case (Subscribe_A body)
  then show ?thesis
    using subscribe_A_outbox [of ev body w] subjects_differ
    by (auto simp: live_count_def)
next
  case SiteStatus_A
  then show ?thesis by (simp add: live_count_def)
qed







lemma live_count_log [simp]: "live_count e (log l w) = live_count e w"
  by (simp add: live_count_def)

lemma live_count_clear [simp]: "live_count e (clear i w) = live_count e w"
  by (simp add: live_count_def)

lemma pending_A_clear [simp]: "pending_A (clear i w) = pending_A w"
  by (simp add: pending_A_def)


lemma emails_marked [simp]:
  "email ` set (collection (mark_all update_A ss w)) = email ` set (collection w)"
proof -
  have "map email (collection (mark_all update_A ss w)) = map email (collection w)"
    unfolding collection_mark_all by (rule emails_mark_all) simp
  then have "set (map email (collection (mark_all update_A ss w))) = set (map email (collection w))"
    by simp
  then show ?thesis by simp
qed







section \<open>Results on interleaved passes\<close>

declare drain.simps [simp del]

lemma drain_next_send:
  assumes "store_up ev"
  shows "(case next_send ss w of (None, w') \<Rightarrow> w' | (Some t, w') \<Rightarrow> drain ev t w') =
     (case notify_each_B ev ss w of
        (Inl err, w1) \<Rightarrow> log (FollowUpError err) w1
      | (Inr u, w1) \<Rightarrow> log AllFollowUpsSent w1)"
proof (induction ss arbitrary: w)
  case Nil
  show ?case by simp
next
  case (Cons s ss)
  show ?case
  proof (cases "smtp ev (email s)")
    case False
    then show ?thesis
      by (simp add: drain.simps [of ev "AwaitSend s ss"] transporter_sendMail_def)
  next
    case True
    then show ?thesis
      using assms Cons.IH
      by (simp add: drain.simps [of ev "AwaitSend s ss"] drain.simps [of ev "AwaitUpdate s ss"]
          transporter_sendMail_def Subscriber_findOneAndUpdate_def)
  qed
qed

text \<open>A pass that nothing interrupts is the pass of the earlier sections.\<close>

lemma drain_is_pass:
  "drain ev (AwaitFind startTime) w = sendLiveNotificationEmails_B ev startTime w"
proof (cases "store_up ev")
  case False
  then show ?thesis
    by (simp add: drain.simps [of ev "AwaitFind startTime"] sendLiveNotificationEmails_B_def
        Subscriber_find_def)
next
  case True
  then show ?thesis
    using drain_next_send [OF True, of "filter isComingSoon (collection w)" w]
    by (simp add: drain.simps [of ev "AwaitFind startTime"] sendLiveNotificationEmails_B_def
        Subscriber_find_def Let_def)
qed

text \<open>
  C9. In part_000 the guard reads \<^verbatim>\<open>followUpEmailSent\<close> from the documents the
  pass's own query returned, where it is undefined: it never skips, and what keeps a
  document out of a pass is only the query's filter on \<^verbatim>\<open>isComingSoon\<close>. When
  the passes of two subscriptions overlap as in \<open>overlap\<close>, the second pass queries
  the store before the first has written, and each of ann and cy is sent the live
  notification twice.
\<close>

theorem overlapping_passes_send_twice:
  "play_B overlap (boot_B [], []) =
     (\<lparr>collection =
         [\<lparr>email = ''ann@x.org'', isComingSoon = False\<rparr>,
          \<lparr>email = ''cy@x.org'', isComingSoon = False\<rparr>],
       outbox =
         [(''ann@x.org'', confirmation_subject), (''cy@x.org'', confirmation_subject),
          (''ann@x.org'', live_subject), (''ann@x.org'', live_subject),
          (''cy@x.org'', live_subject), (''cy@x.org'', live_subject)],
       console =
         [ConfirmationSent ''ann@x.org'', ConfirmationSent ''cy@x.org'',
          FollowUpSent ''ann@x.org'', FollowUpSent ''ann@x.org'',
          FollowUpSent ''cy@x.org'', FollowUpSent ''cy@x.org'',
          AllFollowUpsSent, AllFollowUpsSent],
       timers = []\<rparr>, []) \<and>
   live_count ''ann@x.org'' (fst (play_B overlap (boot_B [], []))) = 2 \<and>
   live_count ''cy@x.org'' (fst (play_B overlap (boot_B [], []))) = 2"
  by (simp add: overlap_def boot_B_def fresh_def env_at_def subscribe_B_def save_def
      transporter_sendMail_def setTimeout_def log_def FOLLOW_UP_TIME_LIMIT_def due_def clear_def
      Subscriber_find_def Subscriber_findOneAndUpdate_def ToNumber_def update_B_eq live_count_def
      confirmation_subject_def live_subject_def Let_def)

section \<open>The life cycle, over whole and interleaved passes\<close>

lemma active_log [simp]: "active e (log l w) = active e w"
  by (simp add: active_def)

lemma active_next_send: "active e (snd (next_send ss w)) = active e w"
  by (induction ss arbitrary: w) simp_all

lemma active_resume: "active e w \<Longrightarrow> active e (snd (resume ev t w))"
proof (cases t)
  case (AwaitFind a)
  assume "active e w"
  then show ?thesis
    using AwaitFind by (simp add: Subscriber_find_def Let_def active_next_send)
next
  case (AwaitSend s rest)
  assume "active e w"
  then show ?thesis
    using AwaitSend by (simp add: transporter_sendMail_def active_def lookup_def)
next
  case (AwaitUpdate s rest)
  assume live: "active e w"
  have "active e (w\<lparr>collection := update_first (email s) update_B (collection w)\<rparr>)"
    using live
    by (auto simp: active_def lookup_def find_update_first update_B_eq split: option.splits)
  then show ?thesis
    using AwaitUpdate live
    by (simp add: Subscriber_findOneAndUpdate_def active_next_send)
qed

lemma active_turn_B: "active e (fst p) \<Longrightarrow> active e (fst (turn_B x p))"
proof -
  assume live: "active e (fst p)"
  obtain ev a where x: "x = (ev, a)" by (cases x)
  obtain w ts where p: "p = (w, ts)" by (cases p)
  show ?thesis
  proof (cases a)
    case (Serve r)
    then show ?thesis
      using live x p lifecycle_handle_B [of e w ev r] by (simp add: lifecycle_ok_def)
  next
    case (Expire i)
    then show ?thesis using live x p by (simp add: active_def)
  next
    case (Resume k)
    then show ?thesis
      using live x p active_resume [of e w ev "ts ! k"]
      by (auto split: prod.splits option.splits)
  qed
qed

lemma active_play_B: "active e (fst p) \<Longrightarrow> active e (fst (play_B xs p))"
  by (induction xs arbitrary: p) (simp_all add: active_turn_B)

text \<open>
  What holds of the life cycle in both files and for every email: each step of the
  process leaves a newly stored document awaiting launch, leaves an active document
  active, and turns the flag from true to false only when it has handed a live
  notification for that email to the transport; so in every run the flag of an email
  goes from true to false at most once, and an active document stays active under
  interleaved passes too.
\<close>

lemma lifecycle_steps:
  "lifecycle_ok e w (step_A x w) \<and> lifecycle_ok e w (step_B y w) \<and>
   flips_A e xs w \<le> 1 \<and> flips_B e ys w \<le> 1 \<and>
   (active e w \<longrightarrow> active e (fst (play_B zs (w, ts))))"
  using flips_A_once [of e xs w] flips_B_once [of e ys w] active_play_B [of e "(w, ts)" zs]
  by (simp add: lifecycle_step_A lifecycle_step_B)

text \<open>
  C1. The update of part_000 names \<^verbatim>\<open>followUpEmailSent\<close>, a path its schema does
  not declare. ann subscribes at instant 0 and the pass of her timer runs at instant
  5000: it mails her and stores \<^verbatim>\<open>isComingSoon\<close> false and nothing else. The
  update that reaches the store assigns \<^verbatim>\<open>isComingSoon\<close> only, and
  \<^verbatim>\<open>followUpEmailSent\<close> is undefined on the stored document as it was before.
\<close>

theorem follow_up_flag_not_stored:
  "let w1 = step_B (env_at 0, Request (Subscribe_B (Some ''ann@x.org''))) (boot_B []);
       w2 = step_B (env_at 5000, Fire 0) w1
   in collection w1 = [\<lparr>email = ''ann@x.org'', isComingSoon = True\<rparr>] \<and>
      outbox w2 = [(''ann@x.org'', confirmation_subject), (''ann@x.org'', live_subject)] \<and>
      collection w2 = [\<lparr>email = ''ann@x.org'', isComingSoon = False\<rparr>] \<and>
      cast_update update_doc_B =
        \<lparr>set_isComingSoon = Some False, set_followUpEmailSent = None\<rparr> \<and>
      map followUpEmailSent (collection w2) = [None]"
  unfolding Let_def subscribed_B_ann fire_B_ann
  by (simp add: update_B_eq ann_def cast_update_def update_doc_B_def followUpEmailSent_def)

end
